theory Spec2Isabelle
  imports Main "HOL-Library.Multiset"
begin

section \<open>The document: elements, child lists and the browser's operations\<close>

text \<open>
  The widget of \<^verbatim>\<open>src/js/sortable.js\<close> works on the elements of a document. An element is
  identified by a number; the document is a store holding, for every element, its parent
  element, its ordered list of child elements, the selectors it matches, its class list and
  the announcement written into it, and the root element of the document. The parent
  pointer and the child lists are both kept, as the browser keeps them, and the operations
  below update both.

  Only elements are modelled: the parent element of the root of a tree is \<open>None\<close>, an
  event target is always an element, and the assistive element holds nothing but its text.
  Which element has the focus is not part of the store: \<^verbatim>\<open>focus()\<close> changes nothing the
  component or the lists hold, and is modelled only where calling it on \<^verbatim>\<open>null\<close> throws. What an element
  matches is fixed: the selectors of the configuration are an attribute and classes that
  the component does not change.
\<close>

type_synonym node = nat

datatype error = TypeError | NotFoundError | HierarchyRequestError

datatype outcome = Returned | Threw error

text \<open>
  The two texts \<^verbatim>\<open>describe\<close> writes, with the numbers they interpolate. A position is
  \<open>None\<close> where the template evaluates \<^verbatim>\<open>undefined + 1\<close>.
\<close>

datatype announcement =
    NoAnnouncement
  | ItemDropped "nat option"
  | ItemGrabbed "nat option" nat

datatype position = Beforebegin | Afterend

record dom =
  parentElement :: "node \<Rightarrow> node option"
  children :: "node \<Rightarrow> node list"
  matches :: "node \<Rightarrow> string \<Rightarrow> bool"
  classList :: "node \<Rightarrow> string set"
  textContent :: "node \<Rightarrow> announcement"
  documentElement :: "node option"

text \<open>
  \<^verbatim>\<open>a.contains(n)\<close> and the validity check of an insertion walk from \<open>n\<close> up the parent
  pointers; \<^verbatim>\<open>n.closest(sel)\<close> walks up to the first element matching \<open>sel\<close>;
  \<^verbatim>\<open>c.querySelector(sel)\<close> visits the descendants of \<open>c\<close> in document order. A walk that
  does not end (possible only in a store that is not a tree) has the value \<open>None\<close>.
\<close>

partial_function (option) is_inclusive_ancestor :: "dom \<Rightarrow> node \<Rightarrow> node \<Rightarrow> bool option" where
  "is_inclusive_ancestor d a n =
     (if a = n then Some True
      else case parentElement d n of
             None \<Rightarrow> Some False
           | Some p \<Rightarrow> is_inclusive_ancestor d a p)"

definition contains :: "dom \<Rightarrow> node \<Rightarrow> node \<Rightarrow> bool option" where
  "contains d c n = is_inclusive_ancestor d c n"

partial_function (option) closest :: "dom \<Rightarrow> node \<Rightarrow> string \<Rightarrow> node option option" where
  "closest d n sel =
     (if matches d n sel then Some (Some n)
      else case parentElement d n of
             None \<Rightarrow> Some None
           | Some p \<Rightarrow> closest d p sel)"

partial_function (option) first_match :: "dom \<Rightarrow> string \<Rightarrow> node list \<Rightarrow> node option option" where
  "first_match d sel todo =
     (case todo of
        [] \<Rightarrow> Some None
      | n # rest \<Rightarrow>
          if matches d n sel then Some (Some n)
          else first_match d sel (children d n @ rest))"

declare is_inclusive_ancestor.simps [code]
declare closest.simps [code]
declare first_match.simps [code]

definition querySelector :: "dom \<Rightarrow> node \<Rightarrow> string \<Rightarrow> node option option" where
  "querySelector d c sel = first_match d sel (children d c)"

definition classList_add :: "dom \<Rightarrow> node \<Rightarrow> string \<Rightarrow> dom" where
  "classList_add d n c = d\<lparr>classList := (classList d)(n := insert c (classList d n))\<rparr>"

definition classList_remove :: "dom \<Rightarrow> node \<Rightarrow> string \<Rightarrow> dom" where
  "classList_remove d n c = d\<lparr>classList := (classList d)(n := classList d n - {c})\<rparr>"

definition detach :: "dom \<Rightarrow> node \<Rightarrow> dom" where
  "detach d n =
     (case parentElement d n of
        None \<Rightarrow> d
      | Some q \<Rightarrow> d\<lparr>parentElement := (parentElement d)(n := None),
                   children := (children d)(q := remove1 n (children d q))\<rparr>)"

text \<open>\<^verbatim>\<open>l.removeChild(n)\<close> throws NotFoundError unless \<open>n\<close> is a child of \<open>l\<close>.\<close>

definition removeChild :: "dom \<Rightarrow> node \<Rightarrow> node \<Rightarrow> error + dom" where
  "removeChild d l n =
     (if parentElement d n = Some l then Inr (detach d n) else Inl NotFoundError)"

fun insert_before :: "'a \<Rightarrow> 'a \<Rightarrow> 'a list \<Rightarrow> 'a list" where
  "insert_before t x [] = [x]"
| "insert_before t x (y # ys) = (if y = t then x # y # ys else y # insert_before t x ys)"

fun insert_after :: "'a \<Rightarrow> 'a \<Rightarrow> 'a list \<Rightarrow> 'a list" where
  "insert_after t x [] = [x]"
| "insert_after t x (y # ys) = (if y = t then y # x # ys else y # insert_after t x ys)"

text \<open>
  \<^verbatim>\<open>target.insertAdjacentElement(where, el)\<close>. A target without a parent element is either
  the root element of the document, whose parent is the document itself: the document
  takes no second element and the call throws HierarchyRequestError; or it is detached,
  and the call returns \<^verbatim>\<open>null\<close>. Otherwise the call throws HierarchyRequestError when
  \<open>el\<close> is the target's parent or one of its ancestors, and else \<open>el\<close> leaves the parent it
  has, becomes a child of the target's parent next to the target, and is returned.
\<close>

definition insertAdjacentElement ::
    "dom \<Rightarrow> node \<Rightarrow> position \<Rightarrow> node \<Rightarrow> (error + node option \<times> dom) option" where
  "insertAdjacentElement d target pos el =
     (case parentElement d target of
        None \<Rightarrow>
          if documentElement d = Some target then Some (Inl HierarchyRequestError)
          else Some (Inr (None, d))
      | Some p \<Rightarrow>
          (case is_inclusive_ancestor d el p of
             None \<Rightarrow> None
           | Some True \<Rightarrow> Some (Inl HierarchyRequestError)
           | Some False \<Rightarrow>
               if el = target then Some (Inr (Some el, d))
               else
                 let d1 = detach d el;
                     cs = children d1 p;
                     cs' = (case pos of
                              Beforebegin \<Rightarrow> insert_before target el cs
                            | Afterend \<Rightarrow> insert_after target el cs)
                 in Some (Inr (Some el,
                      d1\<lparr>parentElement := (parentElement d1)(el := Some p),
                         children := (children d1)(p := cs')\<rparr>))))"

fun prev_of :: "'a \<Rightarrow> 'a list \<Rightarrow> 'a option" where
  "prev_of x [] = None"
| "prev_of x [y] = None"
| "prev_of x (y # z # zs) = (if y = x then None else if z = x then Some y else prev_of x (z # zs))"

fun next_of :: "'a \<Rightarrow> 'a list \<Rightarrow> 'a option" where
  "next_of x [] = None"
| "next_of x [y] = None"
| "next_of x (y # z # zs) = (if y = x then Some z else next_of x (z # zs))"

definition previousElementSibling :: "dom \<Rightarrow> node \<Rightarrow> node option" where
  "previousElementSibling d n =
     (case parentElement d n of None \<Rightarrow> None | Some p \<Rightarrow> prev_of n (children d p))"

definition nextElementSibling :: "dom \<Rightarrow> node \<Rightarrow> node option" where
  "nextElementSibling d n =
     (case parentElement d n of None \<Rightarrow> None | Some p \<Rightarrow> next_of n (children d p))"


section \<open>The component: configuration, state and handlers\<close>

record config =
  cfg_assistiveText :: string
  attr :: string
  draggingClass :: string
  draggingElementClass :: string
  cfg_sortableContainer :: string

definition default_config :: config where
  "default_config =
     \<lparr>cfg_assistiveText = ''.assistive'', attr = ''data-sortable'',
      draggingClass = ''dragging'', draggingElementClass = ''active-drag'',
      cfg_sortableContainer = ''.sortable''\<rparr>"

definition attr_selector :: "config \<Rightarrow> string" where
  "attr_selector cfg = ''['' @ attr cfg @ '']''"

text \<open>\<^verbatim>\<open>null\<close> and \<^verbatim>\<open>undefined\<close> are \<open>None\<close>.\<close>

record state =
  assistiveText :: "node option"
  draggingElement :: "node option"
  draggingIndex :: "nat option"
  sortableContainer :: "node option"
  sortableList :: "node option"

definition init :: state where
  "init = \<lparr>assistiveText = None, draggingElement = None, draggingIndex = None,
           sortableContainer = None, sortableList = None\<rparr>"

text \<open>
  What a handler works on: the component's state, the document, and the calls of
  \<^verbatim>\<open>config.onSort\<close> made so far, each with the state it was given. A handler that throws
  keeps the assignments it made before.
\<close>

record world =
  state :: state
  doc :: dom
  onSort_calls :: "state list"

text \<open>\<^verbatim>\<open>a < b\<close> on numbers that may be \<^verbatim>\<open>undefined\<close>: false then.\<close>

definition js_less :: "nat option \<Rightarrow> nat option \<Rightarrow> bool" where
  "js_less a b = (case (a, b) of (Some x, Some y) \<Rightarrow> x < y | _ \<Rightarrow> False)"

function scan :: "node list \<Rightarrow> node option \<Rightarrow> nat \<Rightarrow> nat" where
  "scan cs el i =
     (if i < length cs then (if Some (cs ! i) = el then i else scan cs el (Suc i)) else 0)"
  by pat_completeness auto
termination
  by (relation "measure (\<lambda>(cs, el, i). length cs - i)") auto

declare scan.simps [simp del]

definition getSortableIndex :: "state \<Rightarrow> dom \<Rightarrow> node option \<Rightarrow> nat option" where
  "getSortableIndex s d el =
     (case sortableList s of
        None \<Rightarrow> None
      | Some l \<Rightarrow> Some (scan (children d l) el 0))"

definition describe :: "state \<Rightarrow> dom \<Rightarrow> error + dom" where
  "describe s d =
     (case assistiveText s of
        None \<Rightarrow> Inl TypeError
      | Some a \<Rightarrow>
          (case draggingElement s of
             None \<Rightarrow>
               Inr (d\<lparr>textContent :=
                       (textContent d)(a := ItemDropped (map_option Suc (draggingIndex s)))\<rparr>)
           | Some _ \<Rightarrow>
               (case sortableList s of
                  None \<Rightarrow> Inl TypeError
                | Some l \<Rightarrow>
                    Inr (d\<lparr>textContent :=
                            (textContent d)(a := ItemGrabbed (map_option Suc (draggingIndex s))
                                                      (length (children d l)))\<rparr>))))"

definition sort' :: "config \<Rightarrow> world \<Rightarrow> node \<Rightarrow> (outcome \<times> world) option" where
  "sort' cfg w target =
     (let s = state w; d = doc w;
          draggingUpwards = js_less (getSortableIndex s d (Some target)) (draggingIndex s)
      in case sortableList s of
           None \<Rightarrow> Some (Threw TypeError, w)
         | Some l \<Rightarrow>
         (case draggingElement s of
            None \<Rightarrow> Some (Threw TypeError, w)
          | Some el \<Rightarrow>
          (case removeChild d l el of
             Inl err \<Rightarrow> Some (Threw err, w)
           | Inr d1 \<Rightarrow>
           (case insertAdjacentElement d1 target
                   (if draggingUpwards then Beforebegin else Afterend) el of
              None \<Rightarrow> None
            | Some (Inl err) \<Rightarrow> Some (Threw err, w\<lparr>doc := d1\<rparr>)
            | Some (Inr (r, d2)) \<Rightarrow>
                let s1 = s\<lparr>draggingElement := r\<rparr>;
                    s2 = s1\<lparr>draggingIndex := getSortableIndex s1 d2 r\<rparr>
                in (case describe s2 d2 of
                      Inl err \<Rightarrow> Some (Threw err, w\<lparr>state := s2, doc := d2\<rparr>)
                    | Inr d3 \<Rightarrow>
                        Some (Returned,
                              w\<lparr>state := s2, doc := d3,
                                onSort_calls := onSort_calls w @ [s2]\<rparr>))))))"

definition start :: "config \<Rightarrow> world \<Rightarrow> node \<Rightarrow> (outcome \<times> world) option" where
  "start cfg w target =
     (let s = state w; d = doc w in
      if \<not> matches d target (attr_selector cfg) then Some (Returned, w)
      else
        let s1 = s\<lparr>draggingElement := Some target\<rparr>;
            s2 = s1\<lparr>sortableList := parentElement d target\<rparr>;
            s3 = s2\<lparr>draggingIndex := getSortableIndex s2 d (Some target)\<rparr>
        in case closest d target (cfg_sortableContainer cfg) of
             None \<Rightarrow> None
           | Some c \<Rightarrow>
               let s4 = s3\<lparr>sortableContainer := c\<rparr> in
               (case c of
                  None \<Rightarrow> Some (Threw TypeError, w\<lparr>state := s4\<rparr>)
                | Some cn \<Rightarrow>
                    (case querySelector d cn (cfg_assistiveText cfg) of
                       None \<Rightarrow> None
                     | Some a \<Rightarrow>
                         let s5 = s4\<lparr>assistiveText := a\<rparr>;
                             d1 = classList_add d target (draggingElementClass cfg);
                             d2 = classList_add d1 cn (draggingClass cfg)
                         in (case describe s5 d2 of
                               Inl err \<Rightarrow> Some (Threw err, w\<lparr>state := s5, doc := d2\<rparr>)
                             | Inr d3 \<Rightarrow> Some (Returned, w\<lparr>state := s5, doc := d3\<rparr>)))))"

definition over :: "config \<Rightarrow> world \<Rightarrow> node \<Rightarrow> (outcome \<times> world) option" where
  "over cfg w target =
     (let s = state w; d = doc w in
      case draggingElement s of
        None \<Rightarrow> Some (Returned, w)
      | Some el \<Rightarrow>
          if el = target then Some (Returned, w)
          else if \<not> matches d target (attr_selector cfg) then Some (Returned, w)
          else
            (case sortableContainer s of
               None \<Rightarrow> Some (Threw TypeError, w)
             | Some c \<Rightarrow>
                 (case contains d c target of
                    None \<Rightarrow> None
                  | Some False \<Rightarrow> Some (Returned, w)
                  | Some True \<Rightarrow> sort' cfg w target)))"

definition end' :: "config \<Rightarrow> world \<Rightarrow> outcome \<times> world" where
  "end' cfg w =
     (let s = state w; d = doc w in
      case draggingElement s of
        None \<Rightarrow> (Threw TypeError, w)
      | Some el \<Rightarrow>
          let d1 = classList_remove d el (draggingElementClass cfg) in
          (case sortableContainer s of
             None \<Rightarrow> (Threw TypeError, w\<lparr>doc := d1\<rparr>)
           | Some c \<Rightarrow>
               let d2 = classList_remove d1 c (draggingClass cfg);
                   s1 = s\<lparr>draggingElement := None\<rparr>
               in (case describe s1 d2 of
                     Inl err \<Rightarrow> (Threw err, w\<lparr>state := s1, doc := d2\<rparr>)
                   | Inr d3 \<Rightarrow>
                       (Returned,
                        w\<lparr>state := s1\<lparr>draggingIndex := None, sortableContainer := None,
                                       sortableList := None\<rparr>,
                          doc := d3\<rparr>))))"

text \<open>
  The key handler. \<^verbatim>\<open>preventDefault\<close> and \<^verbatim>\<open>focus\<close> change nothing the component or
  the store holds; \<^verbatim>\<open>this.state.draggingElement.focus()\<close> throws when the dragging
  element is \<^verbatim>\<open>null\<close>.
\<close>

definition focus_dragging :: "world \<Rightarrow> outcome \<times> world" where
  "focus_dragging w =
     (case draggingElement (state w) of
        None \<Rightarrow> (Threw TypeError, w)
      | Some el \<Rightarrow> (Returned, w))"

definition keydown :: "config \<Rightarrow> world \<Rightarrow> node \<Rightarrow> string \<Rightarrow> (outcome \<times> world) option" where
  "keydown cfg w target key =
     (let s = state w; d = doc w in
      if \<not> matches d target (attr_selector cfg) then Some (Returned, w)
      else if key = '' '' then
        (if draggingElement s = None then start cfg w target else Some (end' cfg w))
      else if draggingElement s \<noteq> None \<and> (key = ''ArrowUp'' \<or> key = ''ArrowDown'') then
        (case (if key = ''ArrowUp'' then previousElementSibling d target
               else nextElementSibling d target) of
           None \<Rightarrow> Some (focus_dragging w)
         | Some t \<Rightarrow>
             (case sort' cfg w t of
                None \<Rightarrow> None
              | Some (Threw err, w1) \<Rightarrow> Some (Threw err, w1)
              | Some (Returned, w1) \<Rightarrow> Some (focus_dragging w1)))
      else if key = ''ArrowUp'' \<or> key = ''ArrowDown'' then
        (case (if key = ''ArrowUp'' then previousElementSibling d target
               else nextElementSibling d target) of
           None \<Rightarrow> Some (Returned, w)
         | Some focusable \<Rightarrow> Some (Returned, w))
      else Some (Returned, w))"

text \<open>
  \<^verbatim>\<open>init\<close> registers the four listeners on the document; \<open>dispatch\<close> is that table. The
  browser goes on delivering events after a listener has thrown, so \<open>run\<close> feeds the
  events one after the other, collecting each outcome.
\<close>

datatype event = Dragstart node | Dragover node | Dragend node | Keydown node string

definition dispatch :: "config \<Rightarrow> world \<Rightarrow> event \<Rightarrow> (outcome \<times> world) option" where
  "dispatch cfg w e =
     (case e of
        Dragstart t \<Rightarrow> start cfg w t
      | Dragover t \<Rightarrow> over cfg w t
      | Dragend t \<Rightarrow> Some (end' cfg w)
      | Keydown t k \<Rightarrow> keydown cfg w t k)"

fun run :: "config \<Rightarrow> world \<Rightarrow> event list \<Rightarrow> (outcome list \<times> world) option" where
  "run cfg w [] = Some ([], w)"
| "run cfg w (e # es) =
     (case dispatch cfg w e of
        None \<Rightarrow> None
      | Some (r, w1) \<Rightarrow>
          (case run cfg w1 es of
             None \<Rightarrow> None
           | Some (rs, w2) \<Rightarrow> Some (r # rs, w2)))"

definition outcomes_of :: "(outcome list \<times> world) option \<Rightarrow> outcome list option" where
  "outcomes_of r = map_option fst r"

definition state_of :: "('r \<times> world) option \<Rightarrow> state option" where
  "state_of r = map_option (\<lambda>(_, w). state w) r"

definition children_of :: "('r \<times> world) option \<Rightarrow> node \<Rightarrow> node list option" where
  "children_of r n = map_option (\<lambda>(_, w). children (doc w) n) r"

definition parentElement_of :: "('r \<times> world) option \<Rightarrow> node \<Rightarrow> node option option" where
  "parentElement_of r n = map_option (\<lambda>(_, w). parentElement (doc w) n) r"

definition calls_of :: "('r \<times> world) option \<Rightarrow> state list option" where
  "calls_of r = map_option (\<lambda>(_, w). onSort_calls w) r"

text \<open>
  The four fields of a drag: the dragging element, its index, the parent list and the
  enclosing container. A state is coherent when they are all set or all unset.
\<close>

definition all_set :: "state \<Rightarrow> bool" where
  "all_set s =
     (draggingElement s \<noteq> None \<and> draggingIndex s \<noteq> None \<and>
      sortableList s \<noteq> None \<and> sortableContainer s \<noteq> None)"

definition all_clear :: "state \<Rightarrow> bool" where
  "all_clear s =
     (draggingElement s = None \<and> draggingIndex s = None \<and>
      sortableList s = None \<and> sortableContainer s = None)"

definition coherent :: "state \<Rightarrow> bool" where
  "coherent s = (all_set s \<or> all_clear s)"


section \<open>Example pages\<close>

text \<open>
  A page is given by the child lists of its elements, the root element first, and by the
  elements that carry \<^verbatim>\<open>data-sortable\<close>. Element 100 is the root, element 0 the
  \<^verbatim>\<open>.sortable\<close> container and element 1 the \<^verbatim>\<open>.assistive\<close> text. In \<open>abcd\<close> the container holds the list 2 with the items
  A = 10, B = 11, C = 12 and D = 13; in \<open>two_lists\<close> it holds the list 2 with A and B and
  the list 3 with C and D; in \<open>with_plain_item\<close> the list 2 holds A and an item 14 that
  is not sortable; in \<open>with_outsider\<close> the list 5, beside the container and not in it, has
  the sortable item 20.
\<close>

definition page :: "(node \<times> node list) list \<Rightarrow> node list \<Rightarrow> dom" where
  "page tree sortables =
     \<lparr>parentElement = (\<lambda>n. map_option fst (find (\<lambda>(p, cs). n \<in> set cs) tree)),
      children = (\<lambda>p. case map_of tree p of None \<Rightarrow> [] | Some cs \<Rightarrow> cs),
      matches = (\<lambda>n sel. sel = ''[data-sortable]'' \<and> n \<in> set sortables
                        \<or> sel = ''.sortable'' \<and> n = 0
                        \<or> sel = ''.assistive'' \<and> n = 1),
      classList = (\<lambda>_. {}),
      textContent = (\<lambda>_. NoAnnouncement),
      documentElement = (case tree of [] \<Rightarrow> None | (r, _) # _ \<Rightarrow> Some r)\<rparr>"

definition abcd :: dom where
  "abcd = page [(100, [0]), (0, [1, 2]), (2, [10, 11, 12, 13])] [10, 11, 12, 13]"

definition two_lists :: dom where
  "two_lists =
     page [(100, [0]), (0, [1, 2, 3]), (2, [10, 11]), (3, [12, 13])] [10, 11, 12, 13]"

definition with_plain_item :: dom where
  "with_plain_item = page [(100, [0]), (0, [1, 2]), (2, [10, 14])] [10]"

definition with_outsider :: dom where
  "with_outsider =
     page [(100, [0, 5]), (0, [1, 2]), (2, [10, 11]), (5, [20])] [10, 11, 20]"

definition fresh :: "dom \<Rightarrow> world" where
  "fresh d = \<lparr>state = init, doc = d, onSort_calls = []\<rparr>"

text \<open>The state a drag of \<open>el\<close> in list \<open>l\<close> at index \<open>i\<close> has on these pages.\<close>

definition dragging :: "node \<Rightarrow> node \<Rightarrow> nat \<Rightarrow> state" where
  "dragging el l i =
     \<lparr>assistiveText = Some 1, draggingElement = Some el, draggingIndex = Some i,
      sortableContainer = Some 0, sortableList = Some l\<rparr>"

definition grabbed :: "dom \<Rightarrow> node \<Rightarrow> node \<Rightarrow> nat \<Rightarrow> world" where
  "grabbed d el l i = \<lparr>state = dragging el l i, doc = d, onSort_calls = []\<rparr>"



text \<open>
  The worlds \<open>grabbed d 10 2 0\<close> of the examples carry the state that a drag-start on A
  leaves on each page.
\<close>

lemma grabbed_is_reached:
  "state_of (run default_config (fresh abcd) [Dragstart 10]) = Some (state (grabbed abcd 10 2 0))"
  "state_of (run default_config (fresh with_plain_item) [Dragstart 10])
     = Some (state (grabbed with_plain_item 10 2 0))"
  "state_of (run default_config (fresh with_outsider) [Dragstart 10])
     = Some (state (grabbed with_outsider 10 2 0))"
  by code_simp+


section \<open>Index lookup\<close>

lemma scan_absent:
  "\<forall>j. i \<le> j \<and> j < length cs \<longrightarrow> Some (cs ! j) \<noteq> el \<Longrightarrow> scan cs el i = 0"
proof (induction cs el i rule: scan.induct)
  case (1 cs el i)
  show ?case
  proof (cases "i < length cs")
    case True
    with "1.prems" have ne: "Some (cs ! i) \<noteq> el" by simp
    from "1.prems" have "\<forall>j. Suc i \<le> j \<and> j < length cs \<longrightarrow> Some (cs ! j) \<noteq> el" by simp
    with "1.IH" True ne have "scan cs el (Suc i) = 0" by simp
    with True ne show ?thesis by (simp add: scan.simps [of cs el i])
  next
    case False
    then show ?thesis by (simp add: scan.simps [of cs el i])
  qed
qed

lemma scan_first:
  "i \<le> k \<Longrightarrow> k < length cs \<Longrightarrow> Some (cs ! k) = el \<Longrightarrow>
   \<forall>j. i \<le> j \<and> j < k \<longrightarrow> Some (cs ! j) \<noteq> el \<Longrightarrow> scan cs el i = k"
proof (induction cs el i rule: scan.induct)
  case (1 cs el i)
  show ?case
  proof (cases "i = k")
    case True
    with "1.prems" show ?thesis by (simp add: scan.simps [of cs el k])
  next
    case False
    with "1.prems" have lt: "i < k" by simp
    with "1.prems" have ne: "Some (cs ! i) \<noteq> el" and il: "i < length cs" by simp_all
    from "1.prems" lt have "scan cs el (Suc i) = k"
      using "1.IH" [OF il ne] by simp
    with il ne show ?thesis by (simp add: scan.simps [of cs el i])
  qed
qed

lemma scan_null: "scan cs None i = 0"
  by (rule scan_absent) simp

lemma first_occurrence:
  assumes "e \<in> set cs"
  obtains k where "k < length cs" "cs ! k = e" "\<forall>j<k. cs ! j \<noteq> e"
proof -
  from assms obtain j where j: "j < length cs \<and> cs ! j = e"
    by (auto simp: in_set_conv_nth)
  define k where "k = (LEAST j. j < length cs \<and> cs ! j = e)"
  have kk: "k < length cs \<and> cs ! k = e"
    unfolding k_def using j by (rule LeastI)
  moreover have "\<forall>j<k. cs ! j \<noteq> e"
  proof (intro allI impI)
    fix j assume "j < k"
    then have "\<not> (j < length cs \<and> cs ! j = e)"
      unfolding k_def by (rule not_less_Least)
    moreover from \<open>j < k\<close> kk have "j < length cs" by simp
    ultimately show "cs ! j \<noteq> e" by simp
  qed
  ultimately show thesis using that by blast
qed

text \<open>
  C6. During a drag (the stored list is set) the lookup returns a number: the first
  position of the element among the children of the stored list, found from the left,
  and 0 when the element is not among them (or is \<^verbatim>\<open>null\<close>).
\<close>

theorem getSortableIndex_linear_scan:
  assumes "sortableList s = Some l"
  shows "\<exists>i. getSortableIndex s d el = Some i \<and>
           (case el of
              None \<Rightarrow> i = 0
            | Some e \<Rightarrow>
                if e \<in> set (children d l)
                then i < length (children d l) \<and> children d l ! i = e \<and>
                     (\<forall>j<i. children d l ! j \<noteq> e)
                else i = 0)"
proof (cases el)
  case None
  with assms show ?thesis by (simp add: getSortableIndex_def scan_null)
next
  case (Some e)
  show ?thesis
  proof (cases "e \<in> set (children d l)")
    case True
    then obtain k where k: "k < length (children d l)" "children d l ! k = e"
        "\<forall>j<k. children d l ! j \<noteq> e"
      by (rule first_occurrence)
    then have "scan (children d l) (Some e) 0 = k"
      by (intro scan_first) auto
    with assms Some True k show ?thesis by (simp add: getSortableIndex_def)
  next
    case False
    then have "scan (children d l) (Some e) 0 = 0"
      by (intro scan_absent) (auto simp: in_set_conv_nth)
    with assms Some False show ?thesis by (simp add: getSortableIndex_def)
  qed
qed

theorem getSortableIndex_linear_scan_witness:
  "sortableList (dragging 10 2 0) = Some 2 \<and>
   (\<exists>i. getSortableIndex (dragging 10 2 0) abcd (Some 12) = Some i \<and>
        i < length (children abcd 2) \<and> children abcd 2 ! i = 12 \<and>
        (\<forall>j<i. children abcd 2 ! j \<noteq> 12)) \<and>
   (\<exists>i. getSortableIndex (dragging 10 2 0) abcd (Some 99) = Some i \<and> i = 0)"
proof -
  have h: "sortableList (dragging 10 2 0) = Some 2" by (simp add: dragging_def)
  have in12: "(12::nat) \<in> set (children abcd 2)" and out99: "(99::nat) \<notin> set (children abcd 2)"
    by (simp_all add: abcd_def page_def)
  show ?thesis
    using h in12 out99
      getSortableIndex_linear_scan [OF h, of abcd "Some 12"]
      getSortableIndex_linear_scan [OF h, of abcd "Some 99"]
    by simp
qed

text \<open>
  C10. The lookup returns \<^verbatim>\<open>undefined\<close>, not a number, exactly when the stored list is
  unset, that is when no drag is active; the fallback 0 is a result of the scan and so
  belongs to an active drag only.
\<close>

theorem getSortableIndex_undefined_iff:
  "(getSortableIndex s d el = None) = (sortableList s = None)"
  by (simp add: getSortableIndex_def split: option.splits)

theorem getSortableIndex_undefined_witness:
  "getSortableIndex init abcd (Some 10) = None \<and>
   getSortableIndex init abcd (Some 10) \<noteq> Some 0"
  using getSortableIndex_undefined_iff [of init abcd "Some 10"]
  by (simp add: init_def)


section \<open>Reordering\<close>

text \<open>
  The walk up from \<open>n\<close> stops at \<open>a\<close>, so it does not depend on the parent of \<open>a\<close>.
\<close>

lemma is_inclusive_ancestor_walk:
  assumes "is_inclusive_ancestor d a n = Some b"
  shows "\<forall>d' :: dom. (\<forall>x. x \<noteq> a \<longrightarrow> parentElement d' x = parentElement d x) \<longrightarrow>
           is_inclusive_ancestor d' a n = Some b"
proof (rule is_inclusive_ancestor.raw_induct [OF _ assms])
  fix f :: "dom \<Rightarrow> node \<Rightarrow> node \<Rightarrow> bool option" and d :: dom and a n b
  assume IH: "\<And>d a n b. f d a n = Some b \<Longrightarrow>
      \<forall>d' :: dom. (\<forall>x. x \<noteq> a \<longrightarrow> parentElement d' x = parentElement d x) \<longrightarrow>
         is_inclusive_ancestor d' a n = Some b"
    and step: "(if a = n then Some True
                else case parentElement d n of None \<Rightarrow> Some False | Some p \<Rightarrow> f d a p) = Some b"
  show "\<forall>d' :: dom. (\<forall>x. x \<noteq> a \<longrightarrow> parentElement d' x = parentElement d x) \<longrightarrow>
           is_inclusive_ancestor d' a n = Some b"
  proof (intro allI impI)
    fix d' :: dom assume same: "\<forall>x. x \<noteq> a \<longrightarrow> parentElement d' x = parentElement d x"
    show "is_inclusive_ancestor d' a n = Some b"
    proof (cases "a = n")
      case True
      with step show ?thesis by (simp add: is_inclusive_ancestor.simps)
    next
      case False
      with same have p: "parentElement d' n = parentElement d n" by simp
      show ?thesis
      proof (cases "parentElement d n")
        case None
        with False step p show ?thesis
          by (simp add: is_inclusive_ancestor.simps [of d' a n])
      next
        case (Some q)
        with False step have "f d a q = Some b" by simp
        then have "is_inclusive_ancestor d' a q = Some b"
          using IH same by blast
        with False p Some show ?thesis
          by (simp add: is_inclusive_ancestor.simps [of d' a n])
      qed
    qed
  qed
qed

lemma is_inclusive_ancestor_cong:
  assumes "is_inclusive_ancestor d a n = Some b"
    and "\<And>x. x \<noteq> a \<Longrightarrow> parentElement d' x = parentElement d x"
  shows "is_inclusive_ancestor d' a n = Some b"
  using is_inclusive_ancestor_walk [OF assms(1)] assms(2) by simp

lemma insert_adjacent_split:
  "t \<in> set xs \<Longrightarrow>
   \<exists>ys zs. xs = ys @ t # zs \<and> t \<notin> set ys \<and>
     insert_before t x xs = ys @ x # t # zs \<and> insert_after t x xs = ys @ t # x # zs"
proof (induction xs)
  case Nil
  then show ?case by simp
next
  case (Cons y xs)
  show ?case
  proof (cases "y = t")
    case True
    then have "y # xs = [] @ t # xs \<and> t \<notin> set [] \<and>
        insert_before t x (y # xs) = [] @ x # t # xs \<and>
        insert_after t x (y # xs) = [] @ t # x # xs"
      by simp
    then show ?thesis by blast
  next
    case False
    with Cons.prems have "t \<in> set xs" by simp
    with Cons.IH obtain ys zs where
      "xs = ys @ t # zs" "t \<notin> set ys" "insert_before t x xs = ys @ x # t # zs"
      "insert_after t x xs = ys @ t # x # zs" by blast
    with False have "y # xs = (y # ys) @ t # zs \<and> t \<notin> set (y # ys) \<and>
        insert_before t x (y # xs) = (y # ys) @ x # t # zs \<and>
        insert_after t x (y # xs) = (y # ys) @ t # x # zs" by simp
    then show ?thesis by blast
  qed
qed

lemma mset_insert_before: "mset (insert_before t x xs) = add_mset x (mset xs)"
  by (induction xs) auto

lemma mset_insert_after: "mset (insert_after t x xs) = add_mset x (mset xs)"
  by (induction xs) auto

lemma sort'_moves:
  assumes el: "draggingElement (state w) = Some el"
    and l: "sortableList (state w) = Some l"
    and child: "parentElement (doc w) el = Some l"
    and ne: "target \<noteq> el"
    and p: "parentElement (doc w) target = Some p"
    and anc: "is_inclusive_ancestor (doc w) el p = Some False"
  defines "up \<equiv> js_less (getSortableIndex (state w) (doc w) (Some target)) (draggingIndex (state w))"
  defines "rest \<equiv> (children (doc w))(l := remove1 el (children (doc w) l))"
  defines "cs' \<equiv> (if up then insert_before target el (rest p) else insert_after target el (rest p))"
  shows "\<exists>out w'. sort' cfg w target = Some (out, w') \<and>
           out = (if assistiveText (state w) = None then Threw TypeError else Returned) \<and>
           children (doc w') = rest(p := cs') \<and>
           parentElement (doc w') = (parentElement (doc w))(el := Some p) \<and>
           matches (doc w') = matches (doc w) \<and>
           state w' = (state w)\<lparr>draggingIndex := Some (scan ((rest(p := cs')) l) (Some el) 0)\<rparr> \<and>
           onSort_calls w' =
             (if out = Returned then onSort_calls w @ [state w'] else onSort_calls w)"
proof -
  define d1 where "d1 = detach (doc w) el"
  have rc: "removeChild (doc w) l el = Inr d1"
    using child by (simp add: removeChild_def d1_def)
  have d1p: "parentElement d1 = (parentElement (doc w))(el := None)"
    and d1c: "children d1 = rest"
    and d1m: "matches d1 = matches (doc w)"
    using child by (simp_all add: d1_def detach_def rest_def)
  have "is_inclusive_ancestor d1 el p = Some False"
    using anc by (rule is_inclusive_ancestor_cong) (simp add: d1p)
  moreover have "parentElement d1 target = Some p" using ne p by (simp add: d1p)
  moreover have "detach d1 el = d1" by (simp add: detach_def d1p)
  ultimately have ins: "insertAdjacentElement d1 target (if up then Beforebegin else Afterend) el =
      Some (Inr (Some el, d1\<lparr>parentElement := (parentElement d1)(el := Some p),
                           children := (children d1)(p := cs')\<rparr>))"
    using ne by (simp add: insertAdjacentElement_def cs'_def d1c Let_def)
  have s: "(state w)\<lparr>draggingElement := Some el\<rparr> = state w" using el by simp
  have up': "js_less (getSortableIndex (state w) (doc w) (Some target)) (draggingIndex (state w)) = up"
    by (simp add: up_def)
  show ?thesis
  proof (cases "assistiveText (state w)")
    case None
    show ?thesis
      unfolding sort'_def Let_def up'
      using el l None rc ins
      by (simp add: s getSortableIndex_def describe_def d1p d1c d1m)
  next
    case (Some a)
    show ?thesis
      unfolding sort'_def Let_def up'
      using el l Some rc ins
      by (simp add: s getSortableIndex_def describe_def d1p d1c d1m)
  qed
qed

lemma sort'_ok:
  assumes el: "draggingElement (state w) = Some el"
    and l: "sortableList (state w) = Some l"
    and child: "parentElement (doc w) el = Some l"
    and ne: "target \<noteq> el"
    and p: "parentElement (doc w) target = Some p"
    and anc: "is_inclusive_ancestor (doc w) el p = Some False"
    and a: "assistiveText (state w) = Some a"
  defines "up \<equiv> js_less (getSortableIndex (state w) (doc w) (Some target)) (draggingIndex (state w))"
  defines "rest \<equiv> (children (doc w))(l := remove1 el (children (doc w) l))"
  defines "cs' \<equiv> (if up then insert_before target el (rest p) else insert_after target el (rest p))"
  shows "\<exists>w'. sort' cfg w target = Some (Returned, w') \<and>
           children (doc w') = rest(p := cs') \<and>
           parentElement (doc w') = (parentElement (doc w))(el := Some p) \<and>
           matches (doc w') = matches (doc w) \<and>
           state w' = (state w)\<lparr>draggingIndex := Some (scan ((rest(p := cs')) l) (Some el) 0)\<rparr> \<and>
           onSort_calls w' = onSort_calls w @ [state w']"
  using sort'_moves [OF el l child ne p anc, of cfg] a
  unfolding up_def rest_def cs'_def by auto

lemma sort'_placement:
  assumes el: "draggingElement (state w) = Some el"
    and l: "sortableList (state w) = Some l"
    and child: "parentElement (doc w) el = Some l"
    and ne: "target \<noteq> el"
    and p: "parentElement (doc w) target = Some p"
    and mem: "target \<in> set (children (doc w) p)"
    and anc: "is_inclusive_ancestor (doc w) el p = Some False"
  shows "\<exists>out w' ys zs. sort' cfg w target = Some (out, w') \<and>
           out = (if assistiveText (state w) = None then Threw TypeError else Returned) \<and>
           (if p = l then remove1 el (children (doc w) l) else children (doc w) p) = ys @ target # zs \<and>
           children (doc w') p =
             (if js_less (getSortableIndex (state w) (doc w) (Some target)) (draggingIndex (state w))
              then ys @ el # target # zs else ys @ target # el # zs) \<and>
           (p \<noteq> l \<longrightarrow> children (doc w') l = remove1 el (children (doc w) l)) \<and>
           parentElement (doc w') el = Some p \<and>
           draggingElement (state w') = Some el"
proof -
  define up where
    "up = js_less (getSortableIndex (state w) (doc w) (Some target)) (draggingIndex (state w))"
  define rest where "rest = (children (doc w))(l := remove1 el (children (doc w) l))"
  define cs' where
    "cs' = (if up then insert_before target el (rest p) else insert_after target el (rest p))"
  from sort'_moves [OF el l child ne p anc, of cfg]
  obtain out w' where w': "sort' cfg w target = Some (out, w')"
      "out = (if assistiveText (state w) = None then Threw TypeError else Returned)"
      "children (doc w') = rest(p := cs')"
      "parentElement (doc w') = (parentElement (doc w))(el := Some p)"
      "state w' = (state w)\<lparr>draggingIndex := Some (scan ((rest(p := cs')) l) (Some el) 0)\<rparr>"
    unfolding up_def rest_def cs'_def by blast
  have restp: "rest p = (if p = l then remove1 el (children (doc w) l) else children (doc w) p)"
    by (simp add: rest_def)
  from mem ne have "target \<in> set (rest p)" by (auto simp: restp)
  then obtain ys zs where split: "rest p = ys @ target # zs"
      "insert_before target el (rest p) = ys @ el # target # zs"
      "insert_after target el (rest p) = ys @ target # el # zs"
    using insert_adjacent_split [of target "rest p" el] by blast
  have "children (doc w') p = (if up then ys @ el # target # zs else ys @ target # el # zs)"
    by (simp add: w'(3) cs'_def split(2,3))
  moreover have "p \<noteq> l \<longrightarrow> children (doc w') l = remove1 el (children (doc w) l)"
    by (simp add: w'(3) rest_def)
  moreover have "parentElement (doc w') el = Some p" by (simp add: w'(4))
  moreover have "draggingElement (state w') = Some el" using el by (simp add: w'(5))
  ultimately show ?thesis
    using w'(1,2) split(1) unfolding restp up_def by blast
qed

lemma abcd_first_reorder:
  "children_of (run default_config (fresh abcd) [Dragstart 10, Dragover 12]) 2 = Some [11, 12, 10, 13] \<and>
   state_of (run default_config (fresh abcd) [Dragstart 10, Dragover 12]) = Some (dragging 10 2 2)"
  by code_simp

lemma abcd_second_reorder:
  "children_of (run default_config (fresh abcd) [Dragstart 10, Dragover 12, Dragover 11]) 2
     = Some [10, 11, 12, 13] \<and>
   state_of (run default_config (fresh abcd) [Dragstart 10, Dragover 12, Dragover 11])
     = Some (dragging 10 2 0)"
  by code_simp

text \<open>
  C1 (the general rule, and the example as the code runs it). In a drag whose element
  \<open>el\<close> is a child of the stored list \<open>l\<close>, a reorder on a target that is another
  element, is a child of some \<open>p\<close> and does not lie inside \<open>el\<close>, moves upward exactly
  when the lookup of the target is less than the stored dragging index; \<open>el\<close> leaves its
  list and stands in the target's list immediately before the target when moving upward
  and immediately after it otherwise. (The reorder returns when the assistive element is
  stored; without it the move is made and the announcement throws.) For the list
  A, B, C, D with A grabbed, a reorder over C yields B, C, A, D with dragging index 2, and
  a following reorder over B (upward, so before B) yields A, B, C, D with dragging index 0.
\<close>

theorem sort_direction_and_placement:
  "(draggingElement (state w) = Some el \<and> sortableList (state w) = Some l \<and>
    parentElement (doc w) el = Some l \<and> target \<noteq> el \<and>
    parentElement (doc w) target = Some p \<and> target \<in> set (children (doc w) p) \<and>
    is_inclusive_ancestor (doc w) el p = Some False \<longrightarrow>
    (\<exists>out w' ys zs. sort' cfg w target = Some (out, w') \<and>
       out = (if assistiveText (state w) = None then Threw TypeError else Returned) \<and>
       (if p = l then remove1 el (children (doc w) l) else children (doc w) p) = ys @ target # zs \<and>
       children (doc w') p =
         (if js_less (getSortableIndex (state w) (doc w) (Some target)) (draggingIndex (state w))
          then ys @ el # target # zs else ys @ target # el # zs) \<and>
       (p \<noteq> l \<longrightarrow> children (doc w') l = remove1 el (children (doc w) l)) \<and>
       parentElement (doc w') el = Some p \<and>
       draggingElement (state w') = Some el)) \<and>
   children_of (run default_config (fresh abcd) [Dragstart 10, Dragover 12]) 2
     = Some [11, 12, 10, 13] \<and>
   state_of (run default_config (fresh abcd) [Dragstart 10, Dragover 12])
     = Some (dragging 10 2 2) \<and>
   children_of (run default_config (fresh abcd) [Dragstart 10, Dragover 12, Dragover 11]) 2
     = Some [10, 11, 12, 13] \<and>
   state_of (run default_config (fresh abcd) [Dragstart 10, Dragover 12, Dragover 11])
     = Some (dragging 10 2 0)"
  using sort'_placement [of w el l target p cfg] abcd_first_reorder abcd_second_reorder
  by blast

theorem sort_direction_and_placement_witness:
  "draggingElement (state (grabbed abcd 10 2 0)) = Some 10 \<and>
   sortableList (state (grabbed abcd 10 2 0)) = Some 2 \<and>
   parentElement (doc (grabbed abcd 10 2 0)) 10 = Some 2 \<and> (12::nat) \<noteq> 10 \<and>
   parentElement (doc (grabbed abcd 10 2 0)) 12 = Some 2 \<and>
   12 \<in> set (children (doc (grabbed abcd 10 2 0)) 2) \<and>
   is_inclusive_ancestor (doc (grabbed abcd 10 2 0)) 10 2 = Some False \<and>
   (\<exists>w' ys zs. sort' default_config (grabbed abcd 10 2 0) 12 = Some (Returned, w') \<and>
       [11, 12, 13] = ys @ 12 # zs \<and>
       children (doc w') 2 = ys @ 12 # 10 # zs \<and>
       parentElement (doc w') 10 = Some 2 \<and>
       draggingElement (state w') = Some 10)"
proof -
  have h: "draggingElement (state (grabbed abcd 10 2 0)) = Some 10 \<and>
      sortableList (state (grabbed abcd 10 2 0)) = Some 2 \<and>
      parentElement (doc (grabbed abcd 10 2 0)) 10 = Some 2 \<and> (12::nat) \<noteq> 10 \<and>
      parentElement (doc (grabbed abcd 10 2 0)) 12 = Some 2 \<and>
      12 \<in> set (children (doc (grabbed abcd 10 2 0)) 2) \<and>
      is_inclusive_ancestor (doc (grabbed abcd 10 2 0)) 10 2 = Some False"
    by (simp add: grabbed_def dragging_def abcd_def page_def is_inclusive_ancestor.simps)
  have up: "\<not> js_less (getSortableIndex (state (grabbed abcd 10 2 0))
                (doc (grabbed abcd 10 2 0)) (Some 12))
              (draggingIndex (state (grabbed abcd 10 2 0)))"
    by (simp add: grabbed_def dragging_def js_less_def getSortableIndex_def)
  have cs: "remove1 10 (children (doc (grabbed abcd 10 2 0)) 2) = [11, 12, 13]"
    by (simp add: grabbed_def abcd_def page_def)
  have a: "assistiveText (state (grabbed abcd 10 2 0)) \<noteq> None"
    by (simp add: grabbed_def dragging_def)
  from sort_direction_and_placement [of "grabbed abcd 10 2 0" 10 2 12 2 default_config] h
  have "\<exists>out w' ys zs. sort' default_config (grabbed abcd 10 2 0) 12 = Some (out, w') \<and>
       out = (if assistiveText (state (grabbed abcd 10 2 0)) = None
              then Threw TypeError else Returned) \<and>
       (if (2::nat) = 2 then remove1 10 (children (doc (grabbed abcd 10 2 0)) 2)
        else children (doc (grabbed abcd 10 2 0)) 2) = ys @ 12 # zs \<and>
       children (doc w') 2 =
         (if js_less (getSortableIndex (state (grabbed abcd 10 2 0))
                (doc (grabbed abcd 10 2 0)) (Some 12))
              (draggingIndex (state (grabbed abcd 10 2 0)))
          then ys @ 10 # 12 # zs else ys @ 12 # 10 # zs) \<and>
       ((2::nat) \<noteq> 2 \<longrightarrow> children (doc w') 2 = remove1 10 (children (doc (grabbed abcd 10 2 0)) 2)) \<and>
       parentElement (doc w') 10 = Some 2 \<and>
       draggingElement (state w') = Some 10"
    by blast
  then have "\<exists>w' ys zs. sort' default_config (grabbed abcd 10 2 0) 12 = Some (Returned, w') \<and>
       [11, 12, 13] = ys @ 12 # zs \<and>
       children (doc w') 2 = ys @ 12 # 10 # zs \<and>
       parentElement (doc w') 10 = Some 2 \<and>
       draggingElement (state w') = Some 10"
    unfolding cs using up a by auto
  with h show ?thesis by blast
qed

text \<open>
  C1 as stated gives B, A, C, D and index 1 for the second reorder; the code gives
  A, B, C, D and index 0.
\<close>

theorem second_reorder_counterexample:
  "children_of (run default_config (fresh abcd) [Dragstart 10, Dragover 12, Dragover 11]) 2
     = Some [10, 11, 12, 13] \<and>
   children_of (run default_config (fresh abcd) [Dragstart 10, Dragover 12, Dragover 11]) 2
     \<noteq> Some [11, 10, 12, 13] \<and>
   state_of (run default_config (fresh abcd) [Dragstart 10, Dragover 12, Dragover 11])
     = Some (dragging 10 2 0) \<and>
   state_of (run default_config (fresh abcd) [Dragstart 10, Dragover 12, Dragover 11])
     \<noteq> Some (dragging 10 2 1)"
  by code_simp


section \<open>The callback and the guards of drag-over\<close>







lemma over_passes_guards:
  assumes "draggingElement (state w) = Some el" and "tg \<noteq> el"
    and "matches (doc w) tg (attr_selector cfg)"
    and "sortableContainer (state w) = Some c" and "contains (doc w) c tg = Some True"
  shows "over cfg w tg = sort' cfg w tg"
  using assms by (auto simp: over_def Let_def)




text \<open>
  C5. A drag-over that fails a guard (no drag is active, the target is the dragging
  element, the target does not match the sortable attribute, or the container does not
  contain the target) returns and leaves the state, the document and the calls of the
  callback as they were.
\<close>

theorem over_guard_noop:
  "draggingElement (state w) = None \<or> draggingElement (state w) = Some target \<or>
   \<not> matches (doc w) target (attr_selector cfg) \<or>
   (\<exists>c. sortableContainer (state w) = Some c \<and> contains (doc w) c target = Some False)
   \<Longrightarrow> over cfg w target = Some (Returned, w)"
  by (auto simp: over_def Let_def split: option.splits)

theorem over_guard_noop_witness:
  "draggingElement (state (fresh abcd)) = None \<and>
   over default_config (fresh abcd) 11 = Some (Returned, fresh abcd) \<and>
   draggingElement (state (grabbed abcd 10 2 0)) = Some 10 \<and>
   over default_config (grabbed abcd 10 2 0) 10 = Some (Returned, grabbed abcd 10 2 0) \<and>
   \<not> matches (doc (grabbed with_plain_item 10 2 0)) 14 (attr_selector default_config) \<and>
   over default_config (grabbed with_plain_item 10 2 0) 14
     = Some (Returned, grabbed with_plain_item 10 2 0) \<and>
   sortableContainer (state (grabbed with_outsider 10 2 0)) = Some 0 \<and>
   contains (doc (grabbed with_outsider 10 2 0)) 0 20 = Some False \<and>
   matches (doc (grabbed with_outsider 10 2 0)) 20 (attr_selector default_config) \<and>
   over default_config (grabbed with_outsider 10 2 0) 20
     = Some (Returned, grabbed with_outsider 10 2 0)"
proof -
  have h1: "draggingElement (state (fresh abcd)) = None"
    by (simp add: fresh_def init_def)
  have h2: "draggingElement (state (grabbed abcd 10 2 0)) = Some 10"
    by (simp add: grabbed_def dragging_def)
  have h3: "\<not> matches (doc (grabbed with_plain_item 10 2 0)) 14 (attr_selector default_config)"
    by (simp add: grabbed_def with_plain_item_def page_def attr_selector_def default_config_def)
  have h4: "sortableContainer (state (grabbed with_outsider 10 2 0)) = Some 0"
      "contains (doc (grabbed with_outsider 10 2 0)) 0 20 = Some False"
      "matches (doc (grabbed with_outsider 10 2 0)) 20 (attr_selector default_config)"
    by (simp_all add: grabbed_def dragging_def with_outsider_def page_def contains_def
        is_inclusive_ancestor.simps attr_selector_def default_config_def)
  show ?thesis
    using h1 h2 h3 h4
      over_guard_noop [of "fresh abcd" 11 default_config]
      over_guard_noop [of "grabbed abcd 10 2 0" 10 default_config]
      over_guard_noop [of "grabbed with_plain_item 10 2 0" 14 default_config]
      over_guard_noop [of "grabbed with_outsider 10 2 0" 20 default_config]
    by blast
qed


section \<open>Drag-end outside a drag\<close>

text \<open>
  The guard of \<^verbatim>\<open>start\<close> and of \<^verbatim>\<open>keydown\<close> returns without an effect, as the guards
  of \<^verbatim>\<open>over\<close> do.
\<close>

lemma unmatched_target_ignored:
  assumes "\<not> matches (doc w) t (attr_selector cfg)"
  shows "start cfg w t = Some (Returned, w)" and "keydown cfg w t k = Some (Returned, w)"
  using assms by (simp_all add: start_def keydown_def)

text \<open>
  C7. \<^verbatim>\<open>end\<close> has no guard: with no drag active, \<^verbatim>\<open>this.state.draggingElement\<close> is
  \<^verbatim>\<open>null\<close> and reading its \<^verbatim>\<open>classList\<close> throws a TypeError.
\<close>

theorem dragend_while_idle_throws:
  "dispatch default_config (fresh abcd) (Dragend 10) = Some (Threw TypeError, fresh abcd)"
  by (simp add: dispatch_def end'_def fresh_def init_def)


section \<open>The four fields of a drag\<close>

lemma start_Returned:
  assumes "matches (doc w) t (attr_selector cfg)" and "start cfg w t = Some (Returned, w')"
  shows "all_set (state w')" and "draggingElement (state w') = Some t"
    and "sortableList (state w') = parentElement (doc w) t"
  using assms
  by (auto simp: start_def Let_def describe_def getSortableIndex_def all_set_def
      split: option.splits sum.splits)

lemma start_unmatched:
  "\<not> matches (doc w) t (attr_selector cfg) \<Longrightarrow> start cfg w t = Some (Returned, w)"
  by (simp add: start_def)

lemma end'_Returned: "end' cfg w = (Returned, w') \<Longrightarrow> all_clear (state w')"
  by (auto simp: end'_def Let_def all_clear_def split: option.splits sum.splits)

lemma sort'_Returned_fields:
  assumes "sort' cfg w x = Some (Returned, w')"
  shows "sortableList (state w') = sortableList (state w)"
    and "sortableContainer (state w') = sortableContainer (state w)"
    and "sortableList (state w) \<noteq> None"
    and "draggingIndex (state w') \<noteq> None"
  using assms
  by (auto simp: sort'_def Let_def getSortableIndex_def
      split: option.splits sum.splits prod.splits)

lemma sort'_Returned_element:
  assumes "sort' cfg w x = Some (Returned, w')" and "draggingElement (state w) = Some el"
    and "x \<noteq> el" and "parentElement (doc w) x \<noteq> None"
  shows "draggingElement (state w') = Some el"
  using assms
  by (auto simp: sort'_def Let_def insertAdjacentElement_def removeChild_def detach_def
      split: option.splits sum.splits prod.splits if_splits bool.splits)

lemma over_Returned_cases:
  "over cfg w x = Some (Returned, w') \<Longrightarrow>
   w' = w \<or> (\<exists>el. draggingElement (state w) = Some el \<and> x \<noteq> el \<and>
                   sort' cfg w x = Some (Returned, w'))"
  by (auto simp: over_def Let_def split: option.splits if_splits bool.splits)

lemma over_coherent:
  assumes "coherent (state w)" and "over cfg w x = Some (Returned, w')"
    and "parentElement (doc w) x \<noteq> None"
  shows "coherent (state w')"
proof -
  from over_Returned_cases [OF assms(2)] show ?thesis
  proof
    assume "w' = w"
    with assms(1) show ?thesis by simp
  next
    assume "\<exists>el. draggingElement (state w) = Some el \<and> x \<noteq> el \<and>
                   sort' cfg w x = Some (Returned, w')"
    then obtain el where el: "draggingElement (state w) = Some el" "x \<noteq> el"
      and 2: "sort' cfg w x = Some (Returned, w')" by blast
    from assms(1) el have "all_set (state w)" by (auto simp: coherent_def all_clear_def)
    with sort'_Returned_fields [OF 2] sort'_Returned_element [OF 2 el assms(3)]
    show ?thesis by (simp add: coherent_def all_set_def)
  qed
qed

lemma focus_dragging_Returned:
  "focus_dragging w = (Returned, w') \<Longrightarrow> state w' = state w \<and> draggingElement (state w) \<noteq> None"
  by (auto simp: focus_dragging_def split: option.splits)

lemma keydown_coherent:
  assumes "coherent (state w)" and "keydown cfg w t k = Some (Returned, w')"
  shows "coherent (state w')"
proof (cases "matches (doc w) t (attr_selector cfg)")
  case False
  with assms show ?thesis by (simp add: keydown_def)
next
  case m: True
  show ?thesis
  proof (cases "k = '' ''")
    case True
    with m assms(2) have "(draggingElement (state w) = None \<and> start cfg w t = Some (Returned, w'))
        \<or> end' cfg w = (Returned, w')"
      by (auto simp: keydown_def Let_def split: if_splits)
    with m start_Returned(1) end'_Returned show ?thesis
      unfolding coherent_def by blast
  next
    case nk: False
    show ?thesis
    proof (cases "draggingElement (state w) \<noteq> None \<and> (k = ''ArrowUp'' \<or> k = ''ArrowDown'')")
      case True
      with assms(1) have set: "all_set (state w)" by (auto simp: coherent_def all_clear_def)
      from m nk True assms(2) have
        "focus_dragging w = (Returned, w') \<or>
         (\<exists>x w1. sort' cfg w x = Some (Returned, w1) \<and> focus_dragging w1 = (Returned, w'))"
        by (auto simp: keydown_def Let_def split: option.splits outcome.splits if_splits)
      then show ?thesis
      proof
        assume "focus_dragging w = (Returned, w')"
        with assms(1) show ?thesis by (auto dest: focus_dragging_Returned)
      next
        assume "\<exists>x w1. sort' cfg w x = Some (Returned, w1) \<and> focus_dragging w1 = (Returned, w')"
        then obtain x w1 where s: "sort' cfg w x = Some (Returned, w1)"
          and f: "focus_dragging w1 = (Returned, w')" by blast
        from focus_dragging_Returned [OF f] sort'_Returned_fields [OF s] set
        show ?thesis by (simp add: coherent_def all_set_def)
      qed
    next
      case False
      with m nk assms(2) have "state w' = state w"
        by (auto simp: keydown_def Let_def split: option.splits if_splits)
      with assms(1) show ?thesis by simp
    qed
  qed
qed

lemma dispatch_coherent:
  assumes "coherent (state w)" and "dispatch cfg w e = Some (Returned, w')"
    and "\<forall>x. e = Dragover x \<longrightarrow> parentElement (doc w) x \<noteq> None"
  shows "coherent (state w')"
proof (cases e)
  case (Dragstart t)
  with assms(2) have s: "start cfg w t = Some (Returned, w')" by (simp add: dispatch_def)
  show ?thesis
  proof (cases "matches (doc w) t (attr_selector cfg)")
    case True
    from start_Returned(1) [OF True s] show ?thesis by (simp add: coherent_def)
  next
    case False
    from start_unmatched [OF False] s assms(1) show ?thesis by simp
  qed
next
  case (Dragover x)
  with assms show ?thesis by (auto simp: dispatch_def intro: over_coherent)
next
  case (Dragend t)
  with assms(2) have "end' cfg w = (Returned, w')" by (simp add: dispatch_def)
  from end'_Returned [OF this] show ?thesis by (simp add: coherent_def)
next
  case (Keydown t k)
  with assms show ?thesis by (auto simp: dispatch_def intro: keydown_coherent)
qed

lemma start_returns:
  assumes "matches (doc w) t (attr_selector cfg)"
    and "parentElement (doc w) t = Some l"
    and "closest (doc w) t (cfg_sortableContainer cfg) = Some (Some c)"
    and "querySelector (doc w) c (cfg_assistiveText cfg) = Some (Some a)"
  shows "\<exists>w'. start cfg w t = Some (Returned, w')"
  using assms by (simp add: start_def Let_def describe_def classList_add_def)

lemma end'_returns:
  assumes "draggingElement (state w) = Some el" and "sortableContainer (state w) = Some c"
    and "assistiveText (state w) = Some a"
  shows "\<exists>w'. end' cfg w = (Returned, w')"
  using assms by (simp add: end'_def Let_def describe_def)

text \<open>
  What holds of the listeners that return. A drag-start on an element matching the
  sortable attribute has set the four fields: the dragging element is the target, the
  list is its parent, and index and container are set. A drag-end has cleared the four.
  No listener that returns takes a coherent state (all four set or all four unset) to one
  that is not, for a drag-over on a target that has a parent. The drag-start returns when
  the element has a parent, an enclosing container and, in it, an assistive element; the
  drag-end returns when the dragging element, the container and the assistive element are
  stored.
\<close>

lemma four_fields_when_returning:
  "(matches (doc w) t (attr_selector cfg) \<and> start cfg w t = Some (Returned, w') \<longrightarrow>
      all_set (state w') \<and> draggingElement (state w') = Some t \<and>
      sortableList (state w') = parentElement (doc w) t) \<and>
   (end' cfg w = (Returned, w') \<longrightarrow> all_clear (state w')) \<and>
   (coherent (state w) \<and> dispatch cfg w e = Some (Returned, w') \<and>
    (\<forall>x. e = Dragover x \<longrightarrow> parentElement (doc w) x \<noteq> None) \<longrightarrow> coherent (state w')) \<and>
   (matches (doc w) t (attr_selector cfg) \<and> parentElement (doc w) t = Some l \<and>
    closest (doc w) t (cfg_sortableContainer cfg) = Some (Some c) \<and>
    querySelector (doc w) c (cfg_assistiveText cfg) = Some (Some a) \<longrightarrow>
      (\<exists>w1. start cfg w t = Some (Returned, w1))) \<and>
   (draggingElement (state w) = Some el \<and> sortableContainer (state w) = Some c \<and>
    assistiveText (state w) = Some a \<longrightarrow> (\<exists>w2. end' cfg w = (Returned, w2)))"
  using start_Returned [of w t cfg w'] end'_Returned [of cfg w w']
    dispatch_coherent [of w cfg e w'] start_returns [of w t cfg l c a]
    end'_returns [of w el c a cfg]
  by blast

text \<open>
  C8. The four fields do not always change together. With A grabbed by the space key, the
  up arrow on B sorts A against itself (the key handler does not test that the sibling is
  another element than the dragging one): the dragging element becomes \<^verbatim>\<open>null\<close> while
  index, list and container stay set, \<^verbatim>\<open>onSort\<close> is called with that state, and
  the listener throws. A drag-start on a sortable element without an enclosing container
  has set element, list and index when it throws on the missing container.
\<close>

theorem partial_state_after_arrow_key:
  "outcomes_of (run default_config (fresh abcd) [Keydown 10 '' '', Keydown 11 ''ArrowUp''])
     = Some [Returned, Threw TypeError] \<and>
   state_of (run default_config (fresh abcd) [Keydown 10 '' '', Keydown 11 ''ArrowUp''])
     = Some \<lparr>assistiveText = Some 1, draggingElement = None, draggingIndex = Some 0,
             sortableContainer = Some 0, sortableList = Some 2\<rparr> \<and>
   calls_of (run default_config (fresh abcd) [Keydown 10 '' '', Keydown 11 ''ArrowUp''])
     = Some [\<lparr>assistiveText = Some 1, draggingElement = None, draggingIndex = Some 0,
              sortableContainer = Some 0, sortableList = Some 2\<rparr>] \<and>
   \<not> all_set \<lparr>assistiveText = Some 1, draggingElement = None, draggingIndex = Some 0,
              sortableContainer = Some 0, sortableList = Some 2\<rparr> \<and>
   \<not> all_clear \<lparr>assistiveText = Some 1, draggingElement = None, draggingIndex = Some 0,
                sortableContainer = Some 0, sortableList = Some 2\<rparr> \<and>
   outcomes_of (run default_config (fresh with_outsider) [Dragstart 20])
     = Some [Threw TypeError] \<and>
   state_of (run default_config (fresh with_outsider) [Dragstart 20])
     = Some \<lparr>assistiveText = None, draggingElement = Some 20, draggingIndex = Some 0,
             sortableContainer = None, sortableList = Some 5\<rparr>"
  by code_simp


section \<open>The key handler\<close>

lemma keydown_arrow_dragging:
  assumes "matches (doc w) t (attr_selector cfg)"
    and "k = ''ArrowUp'' \<or> k = ''ArrowDown''"
    and "draggingElement (state w) = Some el"
    and "(if k = ''ArrowUp'' then previousElementSibling (doc w) t
          else nextElementSibling (doc w) t) = Some tg"
  shows "keydown cfg w t k =
           (case sort' cfg w tg of
              None \<Rightarrow> None
            | Some (Threw err, w1) \<Rightarrow> Some (Threw err, w1)
            | Some (Returned, w1) \<Rightarrow> Some (focus_dragging w1))"
  using assms by (auto simp: keydown_def Let_def)

lemma focus_dragging_frame:
  "state (snd (focus_dragging w)) = state w"
  "children (doc (snd (focus_dragging w))) = children (doc w)"
  "onSort_calls (snd (focus_dragging w)) = onSort_calls w"
  by (auto simp: focus_dragging_def split: option.splits)

lemma then_focus_observed:
  fixes r :: "(outcome \<times> world) option"
  defines "r' \<equiv> (case r of
              None \<Rightarrow> None
            | Some (Threw err, w1) \<Rightarrow> Some (Threw err, w1)
            | Some (Returned, w1) \<Rightarrow> Some (focus_dragging w1))"
  shows "state_of r' = state_of r" and "children_of r' n = children_of r n"
    and "calls_of r' = calls_of r"
proof -
  have "state_of r' = state_of r \<and> children_of r' n = children_of r n \<and>
      calls_of r' = calls_of r"
  proof (cases r)
    case None
    then show ?thesis by (simp add: r'_def)
  next
    case (Some rw)
    obtain out w1 where rw: "rw = (out, w1)" by (cases rw)
    show ?thesis
    proof (cases out)
      case Returned
      obtain out2 w2 where f: "focus_dragging w1 = (out2, w2)" by (cases "focus_dragging w1")
      with focus_dragging_frame [of w1] have "state w2 = state w1"
          "children (doc w2) = children (doc w1)" "onSort_calls w2 = onSort_calls w1"
        by simp_all
      with Some rw Returned f show ?thesis
        by (simp add: r'_def state_of_def children_of_def calls_of_def)
    next
      case (Threw err)
      with Some rw show ?thesis by (simp add: r'_def)
    qed
  qed
  then show "state_of r' = state_of r" and "children_of r' n = children_of r n"
    and "calls_of r' = calls_of r" by simp_all
qed

text \<open>
  Where the key handler and the drag listeners agree. For a key event on an element
  matching the sortable attribute: the space key with no drag active is drag-start on
  that element, and with a drag active is drag-end; an arrow key during a drag, when the
  sibling of the event target on that side exists and passes the guards of drag-over (it
  is not the dragging element, matches the sortable attribute and lies in the container),
  does what drag-over on that sibling does and then focuses the dragging element, so
  state, child lists and callback calls are those of drag-over.
\<close>

lemma keydown_maps_to_drag:
  "matches (doc w) t (attr_selector cfg) \<longrightarrow>
     (draggingElement (state w) = None \<longrightarrow> keydown cfg w t '' '' = start cfg w t) \<and>
     (draggingElement (state w) \<noteq> None \<longrightarrow> keydown cfg w t '' '' = Some (end' cfg w)) \<and>
     ((k = ''ArrowUp'' \<or> k = ''ArrowDown'') \<and> draggingElement (state w) = Some el \<and>
      (if k = ''ArrowUp'' then previousElementSibling (doc w) t
       else nextElementSibling (doc w) t) = Some tg \<and>
      tg \<noteq> el \<and> matches (doc w) tg (attr_selector cfg) \<and>
      sortableContainer (state w) = Some c \<and> contains (doc w) c tg = Some True \<longrightarrow>
        keydown cfg w t k =
          (case over cfg w tg of
             None \<Rightarrow> None
           | Some (Threw err, w1) \<Rightarrow> Some (Threw err, w1)
           | Some (Returned, w1) \<Rightarrow> Some (focus_dragging w1)) \<and>
        state_of (keydown cfg w t k) = state_of (over cfg w tg) \<and>
        children_of (keydown cfg w t k) n = children_of (over cfg w tg) n \<and>
        calls_of (keydown cfg w t k) = calls_of (over cfg w tg))"
proof (intro impI conjI)
  assume m: "matches (doc w) t (attr_selector cfg)"
  { assume "draggingElement (state w) = None"
    with m show "keydown cfg w t '' '' = start cfg w t" by (simp add: keydown_def) }
  { assume "draggingElement (state w) \<noteq> None"
    with m show "keydown cfg w t '' '' = Some (end' cfg w)" by (auto simp: keydown_def) }
  assume h: "(k = ''ArrowUp'' \<or> k = ''ArrowDown'') \<and> draggingElement (state w) = Some el \<and>
      (if k = ''ArrowUp'' then previousElementSibling (doc w) t
       else nextElementSibling (doc w) t) = Some tg \<and>
      tg \<noteq> el \<and> matches (doc w) tg (attr_selector cfg) \<and>
      sortableContainer (state w) = Some c \<and> contains (doc w) c tg = Some True"
  then have o: "over cfg w tg = sort' cfg w tg" by (intro over_passes_guards) auto
  from m h have kd: "keydown cfg w t k =
          (case over cfg w tg of
             None \<Rightarrow> None
           | Some (Threw err, w1) \<Rightarrow> Some (Threw err, w1)
           | Some (Returned, w1) \<Rightarrow> Some (focus_dragging w1))"
    unfolding o by (intro keydown_arrow_dragging) auto
  then show "keydown cfg w t k =
          (case over cfg w tg of
             None \<Rightarrow> None
           | Some (Threw err, w1) \<Rightarrow> Some (Threw err, w1)
           | Some (Returned, w1) \<Rightarrow> Some (focus_dragging w1))" .
  show "state_of (keydown cfg w t k) = state_of (over cfg w tg)"
    unfolding kd by (rule then_focus_observed)
  show "children_of (keydown cfg w t k) n = children_of (over cfg w tg) n"
    unfolding kd by (rule then_focus_observed)
  show "calls_of (keydown cfg w t k) = calls_of (over cfg w tg)"
    unfolding kd by (rule then_focus_observed)
qed

text \<open>
  The key handler sorts on any sibling, where drag-over returns at its guards. With A
  grabbed next to an item that is not sortable, drag-over on the item changes nothing
  while the down arrow on A moves A after it and calls the callback. (The key handler also
  returns at its own guard on an element that is not sortable: the space key there leaves
  the drag active, where drag-end clears it.)
\<close>

lemma keydown_sorts_against_plain_item:
  "state_of (run default_config (fresh with_plain_item) [Dragstart 10, Dragover 14])
     = Some (dragging 10 2 0) \<and>
   children_of (run default_config (fresh with_plain_item) [Dragstart 10, Dragover 14]) 2
     = Some [10, 14] \<and>
   calls_of (run default_config (fresh with_plain_item) [Dragstart 10, Dragover 14]) = Some [] \<and>
   nextElementSibling with_plain_item 10 = Some 14 \<and>
   state_of (run default_config (fresh with_plain_item) [Dragstart 10, Keydown 10 ''ArrowDown''])
     = Some (dragging 10 2 1) \<and>
   children_of (run default_config (fresh with_plain_item) [Dragstart 10, Keydown 10 ''ArrowDown'']) 2
     = Some [14, 10] \<and>
   calls_of (run default_config (fresh with_plain_item) [Dragstart 10, Keydown 10 ''ArrowDown''])
     = Some [dragging 10 2 1] \<and>
   state_of (run default_config (fresh with_plain_item) [Dragstart 10, Dragend 14])
     = Some (init\<lparr>assistiveText := Some 1\<rparr>) \<and>
   state_of (run default_config (fresh with_plain_item) [Dragstart 10, Keydown 14 '' ''])
     = Some (dragging 10 2 0)"
  by code_simp

text \<open>
  C9. The key handler is not subject to the guards of drag-over. With A grabbed by the
  space key, a drag-over on A itself is ignored: list, state and callback calls stay as
  they are. The up arrow on B, whose previous sibling is A, reorders with A as target:
  A is removed from the list, the insertion next to the detached A returns \<^verbatim>\<open>null\<close>,
  the callback is called with the dragging element unset, and focusing it throws. The
  list is left without A.
\<close>

theorem arrow_on_neighbour_of_grabbed_item:
  "previousElementSibling abcd 11 = Some 10 \<and>
   outcomes_of (run default_config (fresh abcd) [Keydown 10 '' '', Dragover 10])
     = Some [Returned, Returned] \<and>
   children_of (run default_config (fresh abcd) [Keydown 10 '' '', Dragover 10]) 2
     = Some [10, 11, 12, 13] \<and>
   state_of (run default_config (fresh abcd) [Keydown 10 '' '', Dragover 10])
     = Some (dragging 10 2 0) \<and>
   calls_of (run default_config (fresh abcd) [Keydown 10 '' '', Dragover 10]) = Some [] \<and>
   outcomes_of (run default_config (fresh abcd) [Keydown 10 '' '', Keydown 11 ''ArrowUp''])
     = Some [Returned, Threw TypeError] \<and>
   children_of (run default_config (fresh abcd) [Keydown 10 '' '', Keydown 11 ''ArrowUp'']) 2
     = Some [11, 12, 13] \<and>
   parentElement_of (run default_config (fresh abcd) [Keydown 10 '' '', Keydown 11 ''ArrowUp'']) 10
     = Some None \<and>
   state_of (run default_config (fresh abcd) [Keydown 10 '' '', Keydown 11 ''ArrowUp''])
     = Some ((dragging 10 2 0)\<lparr>draggingElement := None\<rparr>) \<and>
   calls_of (run default_config (fresh abcd) [Keydown 10 '' '', Keydown 11 ''ArrowUp''])
     = Some [(dragging 10 2 0)\<lparr>draggingElement := None\<rparr>]"
  by code_simp

section \<open>Several lists in one container\<close>

text \<open>
  The last guard of \<^verbatim>\<open>over\<close> (commented "Not dragging over same list") asks whether the
  container contains the target, not whether the target is a child of the stored list,
  while \<^verbatim>\<open>getSortableIndex\<close> and \<^verbatim>\<open>removeChild\<close> work on the stored list. When the
  target is a child of the stored list, a reorder permutes that list and leaves the stored
  index at the position of the dragging element:
\<close>

lemma reorder_within_list:
  assumes el: "draggingElement (state w) = Some el"
    and l: "sortableList (state w) = Some l"
    and child: "parentElement (doc w) el = Some l"
    and ne: "target \<noteq> el"
    and p: "parentElement (doc w) target = Some l"
    and mem: "target \<in> set (children (doc w) l)"
    and elmem: "el \<in> set (children (doc w) l)"
    and dist: "distinct (children (doc w) l)"
    and anc: "is_inclusive_ancestor (doc w) el l = Some False"
    and a: "assistiveText (state w) = Some a"
  shows "\<exists>w' i. sort' cfg w target = Some (Returned, w') \<and>
           mset (children (doc w') l) = mset (children (doc w) l) \<and>
           distinct (children (doc w') l) \<and>
           parentElement (doc w') el = Some l \<and>
           draggingElement (state w') = Some el \<and>
           draggingIndex (state w') = Some i \<and>
           i < length (children (doc w') l) \<and> children (doc w') l ! i = el \<and>
           onSort_calls w' = onSort_calls w @ [state w']"
proof -
  define up where
    "up = js_less (getSortableIndex (state w) (doc w) (Some target)) (draggingIndex (state w))"
  define rest where "rest = (children (doc w))(l := remove1 el (children (doc w) l))"
  define cs' where
    "cs' = (if up then insert_before target el (rest l) else insert_after target el (rest l))"
  from sort'_ok [OF el l child ne p anc a, of cfg]
  obtain w' where w': "sort' cfg w target = Some (Returned, w')"
      "children (doc w') = rest(l := cs')"
      "parentElement (doc w') = (parentElement (doc w))(el := Some l)"
      "state w' = (state w)\<lparr>draggingIndex := Some (scan ((rest(l := cs')) l) (Some el) 0)\<rparr>"
      "onSort_calls w' = onSort_calls w @ [state w']"
    unfolding up_def rest_def cs'_def by blast
  have cs: "children (doc w') l = cs'" by (simp add: w'(2))
  have "mset cs' = add_mset el (mset (remove1 el (children (doc w) l)))"
    by (simp add: cs'_def rest_def mset_insert_before mset_insert_after)
  with elmem have ms: "mset cs' = mset (children (doc w) l)" by simp
  with dist have d': "distinct cs'" by (metis mset_eq_imp_distinct_iff)
  from ms elmem have "el \<in> set cs'" by (metis set_mset_mset)
  then obtain k where k: "k < length cs'" "cs' ! k = el" "\<forall>j<k. cs' ! j \<noteq> el"
    by (rule first_occurrence)
  then have "scan cs' (Some el) 0 = k" by (intro scan_first) auto
  then have "draggingIndex (state w') = Some k" by (simp add: w'(4))
  moreover have "draggingElement (state w') = Some el" using el by (simp add: w'(4))
  moreover have "parentElement (doc w') el = Some l" by (simp add: w'(3))
  ultimately show ?thesis using w'(1,5) ms d' k cs by auto
qed

text \<open>
  C2. In a container with two lists the claim fails: A of the list A, B is grabbed and
  dragged over D of the list C, D; every listener returns, the first list is left with B
  alone and the second is C, D, A.
\<close>

theorem transfer_between_lists:
  "outcomes_of (run default_config (fresh two_lists) [Dragstart 10, Dragover 13, Dragend 10])
     = Some [Returned, Returned, Returned] \<and>
   children two_lists 2 = [10, 11] \<and>
   children_of (run default_config (fresh two_lists) [Dragstart 10, Dragover 13, Dragend 10]) 2
     = Some [11] \<and>
   children_of (run default_config (fresh two_lists) [Dragstart 10, Dragover 13, Dragend 10]) 3
     = Some [12, 13, 10]"
  by code_simp

text \<open>
  C4. On the same page, after the drag-over the callback has been given dragging index 0
  and the state keeps it, while A is the child at position 2 of the second list; the next
  drag-over throws NotFoundError, because A is no longer a child of the stored list.
\<close>

theorem index_out_of_sync_after_transfer:
  "outcomes_of (run default_config (fresh two_lists) [Dragstart 10, Dragover 13])
     = Some [Returned, Returned] \<and>
   calls_of (run default_config (fresh two_lists) [Dragstart 10, Dragover 13])
     = Some [dragging 10 2 0] \<and>
   state_of (run default_config (fresh two_lists) [Dragstart 10, Dragover 13])
     = Some (dragging 10 2 0) \<and>
   parentElement_of (run default_config (fresh two_lists) [Dragstart 10, Dragover 13]) 10
     = Some (Some 3) \<and>
   children_of (run default_config (fresh two_lists) [Dragstart 10, Dragover 13]) 3
     = Some [12, 13, 10] \<and>
   outcomes_of (run default_config (fresh two_lists) [Dragstart 10, Dragover 13, Dragover 12])
     = Some [Returned, Returned, Threw NotFoundError]"
  by code_simp

end
